theory Spec2Isabelle
  imports
    Main
    "HOL-Library.Char_ord"
    "HOL-Library.List_Lexorder"
    "HOL-Library.Product_Lexorder"
    "HOL-Library.Multiset"
begin

section \<open>Strings\<close>

text \<open>
  Python strings are modelled as HOL strings. File names, patterns and the lines of an
  ignore file are read as ASCII text; the three box-drawing glyphs of the output are
  written as their UTF-8 bytes. Characters are compared by their codes, as Python
  compares strings.
\<close>

definition startswith :: "string \<Rightarrow> string \<Rightarrow> bool" where
  "startswith s p = (take (length p) s = p)"

definition endswith :: "string \<Rightarrow> string \<Rightarrow> bool" where
  "endswith s p = (length p \<le> length s \<and> drop (length s - length p) s = p)"

text \<open>The whitespace of \<^verbatim>\<open>str.strip()\<close> among the ASCII characters:
  tab, line feed, vertical tab, form feed, carriage return, the four separators
  0x1C to 0x1F, and the space.\<close>

definition isspace :: "char \<Rightarrow> bool" where
  "isspace c = (let n = (of_char c :: nat) in (9 \<le> n \<and> n \<le> 13) \<or> (28 \<le> n \<and> n \<le> 32))"

definition lstrip_by :: "(char \<Rightarrow> bool) \<Rightarrow> string \<Rightarrow> string" where
  "lstrip_by P s = dropWhile P s"

definition rstrip_by :: "(char \<Rightarrow> bool) \<Rightarrow> string \<Rightarrow> string" where
  "rstrip_by P s = rev (dropWhile P (rev s))"

definition strip_by :: "(char \<Rightarrow> bool) \<Rightarrow> string \<Rightarrow> string" where
  "strip_by P s = rstrip_by P (lstrip_by P s)"

text \<open>\<^verbatim>\<open>line.strip()\<close>, \<^verbatim>\<open>line.strip('/')\<close> and
  \<^verbatim>\<open>pattern.rstrip('/')\<close>.\<close>

definition strip :: "string \<Rightarrow> string" where
  "strip s = strip_by isspace s"

definition strip_chars :: "string \<Rightarrow> string \<Rightarrow> string" where
  "strip_chars cs s = strip_by (\<lambda>c. c \<in> set cs) s"

definition rstrip_chars :: "string \<Rightarrow> string \<Rightarrow> string" where
  "rstrip_chars cs s = rstrip_by (\<lambda>c. c \<in> set cs) s"

text \<open>\<^verbatim>\<open>name.lower()\<close> on ASCII letters; other characters are kept.\<close>

definition lower_char :: "char \<Rightarrow> char" where
  "lower_char c =
     (let n = (of_char c :: nat) in if 65 \<le> n \<and> n \<le> 90 then char_of (n + 32) else c)"

definition lower :: "string \<Rightarrow> string" where
  "lower s = map lower_char s"

text \<open>\<^verbatim>\<open>s.split(sep)\<close> for a non-empty separator: the pieces between the
  occurrences of \<open>sep\<close>, found from the left and not overlapping. The result is never
  empty.\<close>

function split :: "string \<Rightarrow> string \<Rightarrow> string list" where
  "split sep [] = [[]]"
| "split sep (c # cs) =
     (if sep \<noteq> [] \<and> startswith (c # cs) sep
      then [] # split sep (drop (length sep) (c # cs))
      else (case split sep cs of w # ws \<Rightarrow> (c # w) # ws | [] \<Rightarrow> [[c]]))"
  by pat_completeness auto
termination
  by (relation "measure (\<lambda>(sep, s). length s)") auto

text \<open>\<^verbatim>\<open>sep.join(xs)\<close>.\<close>

fun join :: "string \<Rightarrow> string list \<Rightarrow> string" where
  "join sep [] = []"
| "join sep [x] = x"
| "join sep (x # y # ys) = x @ sep @ join sep (y # ys)"

text \<open>\<^verbatim>\<open>sub in s\<close>: \<open>sub\<close> occurs in \<open>s\<close>.\<close>

fun contains :: "string \<Rightarrow> string \<Rightarrow> bool" where
  "contains sub [] = (sub = [])"
| "contains sub (c # cs) = (startswith (c # cs) sub \<or> contains sub cs)"

section \<open>Shell patterns: \<^verbatim>\<open>fnmatch.fnmatch\<close>\<close>

text \<open>
  The library function translates the pattern into a regular expression and matches the
  whole name against it; the model follows the translation of CPython 3.11. On POSIX the
  case normalisation is the identity. A pattern is a sequence of items:
  \<^verbatim>\<open>*\<close> matches any run of characters (the separator included),
  \<^verbatim>\<open>?\<close> one character, \<^verbatim>\<open>[seq]\<close> one character of the set,
  \<^verbatim>\<open>[!seq]\<close> one character outside it, and any other character itself. A
  \<^verbatim>\<open>[\<close> with no closing bracket stands for itself. A set is a list of ranges
  of characters, a single character being the range from itself to itself.
\<close>

datatype glob = Star | AnyChar | Lit char | CharSet bool "(char \<times> char) list"

text \<open>
  The text between the brackets is cut into chunks at the hyphens that stand between two
  characters: \<open>k\<close> characters of \<open>s\<close> are stepped over before a hyphen is looked
  for, one at the start (two after \<^verbatim>\<open>!\<close>) and two after each hyphen found. A
  hyphen at the very end joins the chunk before it.
\<close>

function split_chunks :: "string \<Rightarrow> nat \<Rightarrow> string list" where
  "split_chunks s k =
     (if CHR ''-'' \<in> set (drop k s)
      then (let j = k + length (takeWhile (\<lambda>c. c \<noteq> CHR ''-'') (drop k s))
            in take j s # split_chunks (drop (Suc j) s) 2)
      else [s])"
  by pat_completeness auto
termination
proof (relation "measure (\<lambda>(s, k). length s)", goal_cases)
  case 1
  show ?case by simp
next
  case (2 s k j)
  then have "drop k s \<noteq> []" by auto
  then show ?case by auto
qed

definition close_chunks :: "string list \<Rightarrow> string list" where
  "close_chunks cs =
     (if cs \<noteq> [] \<and> last cs = [] \<and> butlast cs \<noteq> []
      then butlast (butlast cs) @ [last (butlast cs) @ ''-'']
      else cs)"

text \<open>Two neighbouring chunks stand for a range from the last character of the first to
  the first character of the second. From the right, a range that would be descending is
  removed with both its ends, and the two chunks become one.\<close>

fun merge_chunks :: "string list \<Rightarrow> string list" where
  "merge_chunks (c # d # rest) =
     (case merge_chunks (d # rest) of
        [] \<Rightarrow> [c]
      | e # es \<Rightarrow>
          (if c \<noteq> [] \<and> e \<noteq> [] \<and> hd e < last c then (butlast c @ tl e) # es
           else c # e # es))"
| "merge_chunks cs = cs"

text \<open>The chunks are joined by hyphens again and read as a character set of a regular
  expression: a character, a hyphen and a character are a range, and everything else
  stands for itself. A leading \<^verbatim>\<open>!\<close> of the result negates the set.\<close>

datatype set_token = Ch char | Hyphen

fun set_tokens :: "string list \<Rightarrow> set_token list" where
  "set_tokens [] = []"
| "set_tokens [c] = map Ch c"
| "set_tokens (c # d # rest) = map Ch c @ Hyphen # set_tokens (d # rest)"

fun token_char :: "set_token \<Rightarrow> char" where
  "token_char (Ch c) = c"
| "token_char Hyphen = CHR ''-''"

fun set_items :: "set_token list \<Rightarrow> (char \<times> char) list" where
  "set_items (a # Hyphen # b # rest) = (token_char a, token_char b) # set_items rest"
| "set_items (a # rest) = (token_char a, token_char a) # set_items rest"
| "set_items [] = []"

definition char_set :: "string \<Rightarrow> glob" where
  "char_set stuff =
     (let chunks = merge_chunks (close_chunks
            (split_chunks stuff (if stuff \<noteq> [] \<and> hd stuff = CHR ''!'' then 2 else 1)))
      in if chunks \<noteq> [] \<and> hd chunks \<noteq> [] \<and> hd (hd chunks) = CHR ''!''
         then CharSet True (set_items (set_tokens (tl (hd chunks) # tl chunks)))
         else CharSet False (set_items (set_tokens chunks)))"

text \<open>The scan for the closing bracket: \<open>r\<close> is the pattern after the opening
  bracket; a leading \<^verbatim>\<open>!\<close> and then a leading \<^verbatim>\<open>]\<close> are stepped
  over. The result is the index of the closing bracket in \<open>r\<close>, if there is one.\<close>

definition bracket_end :: "string \<Rightarrow> nat option" where
  "bracket_end r =
     (let j0 = (if 0 < length r \<and> r ! 0 = CHR ''!'' then 1 else 0);
          j1 = (if j0 < length r \<and> r ! j0 = CHR '']'' then j0 + 1 else j0);
          j = j1 + length (takeWhile (\<lambda>c. c \<noteq> CHR '']'') (drop j1 r))
      in if j \<ge> length r then None else Some j)"

fun translate :: "string \<Rightarrow> glob list" where
  "translate [] = []"
| "translate (c # pat) =
     (if c = CHR ''*'' then Star # translate pat
      else if c = CHR ''?'' then AnyChar # translate pat
      else if c = CHR ''['' then
        (case bracket_end pat of
           None \<Rightarrow> Lit c # translate pat
         | Some j \<Rightarrow> char_set (take j pat) # translate (drop (Suc j) pat))
      else Lit c # translate pat)"

definition in_set :: "(char \<times> char) list \<Rightarrow> char \<Rightarrow> bool" where
  "in_set rs c = list_ex (\<lambda>(lo, hi). lo \<le> c \<and> c \<le> hi) rs"

fun glob_match :: "glob list \<Rightarrow> string \<Rightarrow> bool" where
  "glob_match [] s = (s = [])"
| "glob_match (Star # gs) [] = glob_match gs []"
| "glob_match (Star # gs) (x # s) = (glob_match gs (x # s) \<or> glob_match (Star # gs) s)"
| "glob_match (AnyChar # gs) s = (case s of [] \<Rightarrow> False | x # s' \<Rightarrow> glob_match gs s')"
| "glob_match (Lit c # gs) s = (case s of [] \<Rightarrow> False | x # s' \<Rightarrow> x = c \<and> glob_match gs s')"
| "glob_match (CharSet neg rs # gs) s =
     (case s of [] \<Rightarrow> False | x # s' \<Rightarrow> (in_set rs x \<noteq> neg) \<and> glob_match gs s')"

definition fnmatch :: "string \<Rightarrow> string \<Rightarrow> bool" where
  "fnmatch name pat = glob_match (translate pat) name"

section \<open>Paths: \<^verbatim>\<open>os.path\<close> and \<^verbatim>\<open>pathlib.Path\<close> on POSIX\<close>

text \<open>One step of the loop of \<^verbatim>\<open>os.path.normpath\<close> over the components.\<close>

definition normpath_step :: "nat \<Rightarrow> string list \<Rightarrow> string \<Rightarrow> string list" where
  "normpath_step initial_slashes new_comps part =
     (if part = [] \<or> part = ''.'' then new_comps
      else if part \<noteq> ''..'' \<or> (initial_slashes = 0 \<and> new_comps = [])
              \<or> (new_comps \<noteq> [] \<and> last new_comps = ''..'')
      then new_comps @ [part]
      else if new_comps \<noteq> [] then butlast new_comps
      else new_comps)"

definition normpath :: "string \<Rightarrow> string" where
  "normpath path =
     (if path = [] then ''.''
      else
        let initial_slashes =
              (if startswith path ''/''
               then (if startswith path ''//'' \<and> \<not> startswith path ''///'' then 2 else 1)
               else (0::nat));
            comps = foldl (normpath_step initial_slashes) [] (split ''/'' path);
            joined = join ''/'' comps;
            res = (if initial_slashes \<noteq> 0
                   then replicate initial_slashes CHR ''/'' @ joined else joined)
        in if res = [] then ''.'' else res)"

text \<open>\<^verbatim>\<open>os.path.basename\<close>: what follows the last separator.\<close>

definition basename :: "string \<Rightarrow> string" where
  "basename p = rev (takeWhile (\<lambda>c. c \<noteq> CHR ''/'') (rev p))"

text \<open>A \<^verbatim>\<open>pathlib\<close> path: its root (empty, one slash or two) and its
  components.\<close>

record path =
  root :: string
  parts :: "string list"

definition splitroot :: "string \<Rightarrow> string \<times> string" where
  "splitroot part =
     (if part \<noteq> [] \<and> hd part = CHR ''/''
      then (let stripped_part = dropWhile (\<lambda>c. c = CHR ''/'') part
            in if length part - length stripped_part = 2 then (''//'', stripped_part)
               else (''/'', stripped_part))
      else ([], part))"

definition Path :: "string \<Rightarrow> path" where
  "Path s =
     (case splitroot s of
        (r, rel) \<Rightarrow> \<lparr>root = r, parts = filter (\<lambda>x. x \<noteq> [] \<and> x \<noteq> ''.'') (split ''/'' rel)\<rparr>)"

definition str :: "path \<Rightarrow> string" where
  "str p = (let s = root p @ join ''/'' (parts p) in if s = [] then ''.'' else s)"

definition name :: "path \<Rightarrow> string" where
  "name p = (if parts p = [] then [] else last (parts p))"

definition parent :: "path \<Rightarrow> path" where
  "parent p = (if parts p = [] then p else p\<lparr>parts := butlast (parts p)\<rparr>)"

text \<open>The path of a directory entry, as \<^verbatim>\<open>iterdir\<close> builds it.\<close>

definition child :: "path \<Rightarrow> string \<Rightarrow> path" where
  "child p n = p\<lparr>parts := parts p @ [n]\<rparr>"

section \<open>The filesystem\<close>

text \<open>
  The program reads the filesystem through five calls: \<^verbatim>\<open>os.path.exists\<close>,
  \<^verbatim>\<open>open\<close>, \<^verbatim>\<open>Path.is_dir\<close> and \<^verbatim>\<open>Path.iterdir\<close> (twice).
  A node is what a path resolves to: a file with its lines (\<open>None\<close> when it cannot be
  read), or a directory with a flag saying whether it can be listed and its entries in
  the order the operating system lists them. A path that does not exist resolves to
  \<open>None\<close>. Every directory can be searched, and there are no symbolic links.
\<close>

datatype node = File "string list option" | Dir bool "(string \<times> node) list"

datatype error =
  PermissionError | IsADirectoryError | NotADirectoryError | FileNotFoundError | AttributeError

fun is_dir :: "node option \<Rightarrow> bool" where
  "is_dir (Some (Dir readable entries)) = True"
| "is_dir _ = False"

fun iterdir :: "node option \<Rightarrow> error + (string \<times> node) list" where
  "iterdir None = Inl FileNotFoundError"
| "iterdir (Some (File c)) = Inl NotADirectoryError"
| "iterdir (Some (Dir readable entries)) = (if readable then Inr entries else Inl PermissionError)"

text \<open>What \<^verbatim>\<open>os.path.join(directory, n)\<close> resolves to, given the node of
  \<open>directory\<close>.\<close>

fun lookup :: "node option \<Rightarrow> string \<Rightarrow> node option" where
  "lookup (Some (Dir readable entries)) n = map_of entries n"
| "lookup _ n = None"

text \<open>\<^verbatim>\<open>open(path, 'r')\<close> and the iteration over the lines of the file.\<close>

fun read_lines :: "node \<Rightarrow> error + string list" where
  "read_lines (File None) = Inl PermissionError"
| "read_lines (File (Some ls)) = Inr ls"
| "read_lines (Dir readable entries) = Inl IsADirectoryError"

fun weight :: "node \<Rightarrow> nat" where
  "weight (File c) = 1"
| "weight (Dir readable entries) = Suc (sum_list (map (\<lambda>e. weight (snd e)) entries))"

section \<open>\<^verbatim>\<open>GitignoreParser\<close>\<close>

record gitignore_parser =
  patterns :: "string list"
  default_patterns :: "string list"

definition GitignoreParser :: gitignore_parser where
  "GitignoreParser =
     \<lparr>patterns = [],
      default_patterns =
        [''node_modules'', ''dist'', ''__pycache__'', ''*.pyc'', ''.git'', ''.DS_Store'',
         ''build'', ''.env'', ''venv'', ''.venv'']\<rparr>"

text \<open>The body of the loop over the lines of the ignore file.\<close>

definition load_line :: "gitignore_parser \<Rightarrow> string \<Rightarrow> gitignore_parser" where
  "load_line self ln =
     (let l = strip ln in
      if l \<noteq> [] \<and> \<not> startswith l ''#''
      then self\<lparr>patterns := patterns self @ [strip_chars ''/'' l]\<rparr>
      else self)"

text \<open>\<^verbatim>\<open>load_gitignore(directory)\<close>; \<open>nd\<close> is the node of \<open>directory\<close>.
  An error of \<^verbatim>\<open>open\<close> is not caught.\<close>

definition load_gitignore :: "gitignore_parser \<Rightarrow> node option \<Rightarrow> error + gitignore_parser" where
  "load_gitignore self nd =
     (let self1 = self\<lparr>patterns := default_patterns self\<rparr> in
      case lookup nd ''.gitignore'' of
        None \<Rightarrow> Inr self1
      | Some f \<Rightarrow>
          (case read_lines f of
             Inl e \<Rightarrow> Inl e
           | Inr ls \<Rightarrow> Inr (foldl load_line self1 ls)))"

text \<open>The loop of \<^verbatim>\<open>should_ignore\<close> over the patterns; \<open>p\<close> is the normalised
  path and \<open>n\<close> its base name.\<close>

fun should_ignore_loop :: "string \<Rightarrow> string \<Rightarrow> bool \<Rightarrow> string list \<Rightarrow> bool" where
  "should_ignore_loop p n isdir [] = False"
| "should_ignore_loop p n isdir (pattern # rest) =
     (if endswith pattern ''/'' \<and> \<not> isdir then should_ignore_loop p n isdir rest
      else
        let pat = rstrip_chars ''/'' pattern in
        if fnmatch p pat \<or> fnmatch n pat then True
        else if contains ''**'' pat \<and>
                (let ps = split ''**'' pat
                 in length ps = 2 \<and> startswith p (ps ! 0) \<and> endswith p (ps ! 1))
        then True
        else should_ignore_loop p n isdir rest)"

definition should_ignore :: "gitignore_parser \<Rightarrow> string \<Rightarrow> bool \<Rightarrow> bool" where
  "should_ignore self p isdir =
     (let q = normpath p in should_ignore_loop q (basename q) isdir (patterns self))"

section \<open>\<^verbatim>\<open>tree\<close>\<close>

text \<open>The connectors and the continuation marker, as UTF-8.\<close>

definition elbow :: string where
  "elbow = [CHR 0xE2, CHR 0x94, CHR 0x94, CHR 0xE2, CHR 0x94, CHR 0x80,
            CHR 0xE2, CHR 0x94, CHR 0x80, CHR '' '']"

definition tee :: string where
  "tee = [CHR 0xE2, CHR 0x94, CHR 0x9C, CHR 0xE2, CHR 0x94, CHR 0x80,
          CHR 0xE2, CHR 0x94, CHR 0x80, CHR '' '']"

definition pipe :: string where
  "pipe = [CHR 0xE2, CHR 0x94, CHR 0x82, CHR '' '', CHR '' '', CHR '' '']"

text \<open>A call of \<^verbatim>\<open>print\<close>: the line, with the path it is printed for and
  whether that path is a directory.\<close>

record event =
  subject :: string
  subject_is_dir :: bool
  line :: string

text \<open>The key of \<^verbatim>\<open>sorted\<close>, and the sorted and filtered entries of the
  directory at path \<open>p\<close>.\<close>

definition sort_key_of :: "string \<times> node \<Rightarrow> bool \<times> string" where
  "sort_key_of item = (\<not> is_dir (Some (snd item)), lower (fst item))"

definition kept :: "gitignore_parser \<Rightarrow> path \<Rightarrow> string \<times> node \<Rightarrow> bool" where
  "kept g p item = (\<not> should_ignore g (str (child p (fst item))) (is_dir (Some (snd item))))"

definition contents :: "gitignore_parser \<Rightarrow> path \<Rightarrow> (string \<times> node) list \<Rightarrow> (string \<times> node) list" where
  "contents g p entries = filter (kept g p) (sort_key sort_key_of entries)"

text \<open>The line of an entry: the bare name at level 0, and otherwise the prefix, a
  connector decided by \<^verbatim>\<open>not any(Path(directory).parent.iterdir())\<close> and the
  name. \<open>par\<close> is the node of the parent path; an error of its listing is not caught.\<close>

definition entry_line :: "node option \<Rightarrow> path \<Rightarrow> nat \<Rightarrow> string \<Rightarrow> error + string" where
  "entry_line par p level prefix =
     (if level = 0 then Inr (name p)
      else
        (case iterdir par of
           Inl e \<Rightarrow> Inl e
         | Inr es \<Rightarrow>
             (let is_last = (es = [])
              in Inr (prefix @ (if is_last then elbow else tee) @ name p))))"

text \<open>
  \<^verbatim>\<open>tree(directory, level, prefix, gitignore_parser)\<close>. \<open>nd\<close> is the node of
  \<open>directory\<close> and \<open>par\<close> the node of its parent path; the parent path of an entry
  resolves to the directory that lists the entry. The result is the sequence of printed
  lines and the exception that ended the call, if any. A parser of \<open>None\<close> below
  level 0 is an \<^verbatim>\<open>AttributeError\<close>. \<open>tree_items\<close> is the loop over the
  entries: \<open>n\<close> is their number and \<open>i\<close> the index of the next one; it ends with the
  first exception of a recursive call.
\<close>

function tree ::
    "node option \<Rightarrow> node option \<Rightarrow> string \<Rightarrow> nat \<Rightarrow> string \<Rightarrow> gitignore_parser option
      \<Rightarrow> event list \<times> error option"
  and tree_items ::
    "node \<Rightarrow> path \<Rightarrow> nat \<Rightarrow> string \<Rightarrow> gitignore_parser \<Rightarrow> nat \<Rightarrow> nat \<Rightarrow> (string \<times> node) list
      \<Rightarrow> event list \<times> error option"
where
  "tree par nd directory level prefix gitignore_parser =
     (let p = Path directory in
      case (if level = 0
            then (case load_gitignore GitignoreParser nd of
                    Inl e \<Rightarrow> Inl e
                  | Inr g \<Rightarrow> Inr (Some g))
            else Inr gitignore_parser) of
        Inl e \<Rightarrow> ([], Some e)
      | Inr None \<Rightarrow> ([], Some AttributeError)
      | Inr (Some g) \<Rightarrow>
          if should_ignore g (str p) (is_dir nd) then ([], None)
          else
            (case entry_line par p level prefix of
               Inl e \<Rightarrow> ([], Some e)
             | Inr text \<Rightarrow>
                 (let ev = \<lparr>subject = str p, subject_is_dir = is_dir nd, line = text\<rparr> in
                  case nd of
                    Some (Dir readable entries) \<Rightarrow>
                      if readable then
                        (let cs = contents g p entries in
                         case tree_items (Dir readable entries) p level prefix g (length cs) 0 cs of
                           (out, r) \<Rightarrow> (ev # out, r))
                      else ([ev], None)
                  | _ \<Rightarrow> ([ev], None))))"
| "tree_items d p level prefix g n i [] = ([], None)"
| "tree_items d p level prefix g n i (item # rest) =
     (let new_prefix =
            (if level = 0 then ''    ''
             else (let is_last_item = (i = n - 1)
                   in prefix @ (if is_last_item then ''    '' else pipe)))
      in case tree (Some d) (Some (snd item)) (str (child p (fst item))) (level + 1) new_prefix
                (Some g) of
           (out, Some e) \<Rightarrow> (out, Some e)
         | (out, None) \<Rightarrow>
             (case tree_items d p level prefix g n (i + 1) rest of
                (out', r) \<Rightarrow> (out @ out', r)))"
  by pat_completeness auto

text \<open>\<^verbatim>\<open>main\<close>: \<open>argv\<close> is \<^verbatim>\<open>sys.argv\<close> and \<open>fs\<close> resolves a path.\<close>

definition main :: "(string \<Rightarrow> node option) \<Rightarrow> string list \<Rightarrow> event list \<times> error option" where
  "main fs argv =
     (let p = (if length argv > 1 then argv ! 1 else ''.'')
      in tree (fs (str (parent (Path p)))) (fs p) p 0 [] None)"

text \<open>The text on standard output, line by line.\<close>

definition stdout :: "event list \<times> error option \<Rightarrow> string list" where
  "stdout res = map line (fst res)"

section \<open>Auxiliary notions\<close>

text \<open>A directory that can be listed.\<close>

definition listable :: "node option \<Rightarrow> bool" where
  "listable nd = (case iterdir nd of Inl e \<Rightarrow> False | Inr es \<Rightarrow> True)"

text \<open>A pattern without wildcard characters, and a pattern that can only match a single
  path component: a plain word without separator, or \<^verbatim>\<open>*\<close> followed by one.\<close>

definition plain :: "string \<Rightarrow> bool" where
  "plain l = (\<forall>c \<in> set l. c \<noteq> CHR ''*'' \<and> c \<noteq> CHR ''?'' \<and> c \<noteq> CHR ''['')"

definition word :: "string \<Rightarrow> bool" where
  "word l = (plain l \<and> CHR ''/'' \<notin> set l)"

definition simple :: "string \<Rightarrow> bool" where
  "simple pat = (word pat \<or> (pat \<noteq> [] \<and> hd pat = CHR ''*'' \<and> word (tl pat)))"






text \<open>Two entries with the same name and kind, and two such entries whose walks print the
  same, whatever the path, the level and the prefix.\<close>

definition alike :: "string \<times> node \<Rightarrow> string \<times> node \<Rightarrow> bool" where
  "alike x y = (fst x = fst y \<and> is_dir (Some (snd x)) = is_dir (Some (snd y)))"


lemma weight_pos: "0 < weight d"
  by (cases d) simp_all

lemma weight_contents:
  "sum_list (map (\<lambda>e. weight (snd e)) (contents g p entries))
     \<le> sum_list (map (\<lambda>e. weight (snd e)) entries)"
proof -
  have "sum_list (map (\<lambda>e. weight (snd e)) (filter (kept g p) (sort_key sort_key_of entries)))
          \<le> sum_list (map (\<lambda>e. weight (snd e)) (sort_key sort_key_of entries))"
    by (rule sum_list_filter_le_nat)
  also have "\<dots> = sum_mset (image_mset (\<lambda>e. weight (snd e)) (mset (sort_key sort_key_of entries)))"
    by (simp add: sum_mset_sum_list [symmetric])
  also have "\<dots> = sum_list (map (\<lambda>e. weight (snd e)) entries)"
    by (simp add: sum_mset_sum_list [symmetric])
  finally show ?thesis by (simp add: contents_def)
qed

section \<open>Termination of the walk\<close>

text \<open>Every entry of the sorted and filtered list is an entry of the directory, so the
  weight of the nodes below a call decreases.\<close>

termination tree
proof (relation "measure (\<lambda>x. case x of
          Inl (par, nd, directory, level, prefix, gp) \<Rightarrow>
            (case nd of None \<Rightarrow> 0 | Some d \<Rightarrow> 2 * weight d)
        | Inr (d, p, level, prefix, g, n, i, items) \<Rightarrow>
            2 * sum_list (map (\<lambda>e. weight (snd e)) items) + 1)", goal_cases)
  case 1
  show ?case by simp
next
  case (2 par nd directory level prefix gitignore_parser p x g y ev d readable entries cs)
  then show ?case using weight_contents [of g "Path directory" entries] by simp
next
  case 3
  show ?case by simp
next
  case 4
  show ?case by (simp add: weight_pos)
qed

section \<open>Facts about strings and patterns\<close>

lemma endswith_iff: "endswith s p \<longleftrightarrow> (\<exists>xs. s = xs @ p)"
proof
  assume "endswith s p"
  then have "s = take (length s - length p) s @ p"
    by (metis append_take_drop_id endswith_def)
  then show "\<exists>xs. s = xs @ p" ..
next
  assume "\<exists>xs. s = xs @ p"
  then show "endswith s p" by (auto simp add: endswith_def)
qed

lemma startswith_iff: "startswith s p \<longleftrightarrow> (\<exists>xs. s = p @ xs)"
  unfolding startswith_def by (metis append_eq_conv_conj)

lemma endswith_sep: "endswith s ''/'' \<longleftrightarrow> s \<noteq> [] \<and> last s = CHR ''/''"
  by (cases s rule: rev_cases) (auto simp add: endswith_iff)

lemma rstrip_chars_id: "\<not> endswith s ''/'' \<Longrightarrow> rstrip_chars ''/'' s = s"
  by (cases s rule: rev_cases) (auto simp add: endswith_sep rstrip_chars_def rstrip_by_def)

lemma contains_hd: "contains sub s \<Longrightarrow> sub \<noteq> [] \<Longrightarrow> hd sub \<in> set s"
proof (induction s)
  case Nil
  then show ?case by simp
next
  case (Cons c cs)
  show ?case
  proof (cases "startswith (c # cs) sub")
    case True
    then obtain xs where "c # cs = sub @ xs" by (auto simp add: startswith_iff)
    then show ?thesis using Cons.prems(2) by (cases sub) auto
  next
    case False
    then show ?thesis using Cons by simp
  qed
qed

lemma translate_plain: "plain l \<Longrightarrow> translate l = map Lit l"
  by (induction l) (simp_all add: plain_def)

lemma glob_match_lits: "glob_match (map Lit l) s \<longleftrightarrow> s = l"
  by (induction l arbitrary: s) (auto split: list.splits)

lemma glob_match_star_lits: "glob_match (Star # map Lit l) s \<longleftrightarrow> (\<exists>xs. s = xs @ l)"
proof (induction s)
  case Nil
  then show ?case by (auto simp add: glob_match_lits)
next
  case (Cons a s)
  show ?case by (auto simp add: glob_match_lits Cons Cons_eq_append_conv)
qed

lemma fnmatch_plain: "plain l \<Longrightarrow> fnmatch s l \<longleftrightarrow> s = l"
  by (simp add: fnmatch_def translate_plain glob_match_lits)

lemma fnmatch_star_plain: "plain l \<Longrightarrow> fnmatch s (CHR ''*'' # l) \<longleftrightarrow> endswith s l"
  by (simp add: fnmatch_def translate_plain glob_match_star_lits endswith_iff)

lemma basename_id: "CHR ''/'' \<notin> set q \<Longrightarrow> basename q = q"
proof -
  assume "CHR ''/'' \<notin> set q"
  then have "takeWhile (\<lambda>c. c \<noteq> CHR ''/'') (rev q) = rev q"
    by (auto simp add: takeWhile_eq_all_conv)
  then show ?thesis by (metis basename_def rev_rev_ident)
qed

lemma basename_append: "CHR ''/'' \<notin> set l \<Longrightarrow> basename (xs @ l) = basename xs @ l"
proof -
  assume "CHR ''/'' \<notin> set l"
  then have "takeWhile (\<lambda>c. c \<noteq> CHR ''/'') (rev l @ rev xs)
               = rev l @ takeWhile (\<lambda>c. c \<noteq> CHR ''/'') (rev xs)"
    by (intro takeWhile_append2) auto
  then show ?thesis by (simp add: basename_def)
qed

lemma endswith_basename:
  assumes "endswith q l" "CHR ''/'' \<notin> set l"
  shows "endswith (basename q) l"
proof -
  obtain xs where "q = xs @ l" using assms(1) by (auto simp add: endswith_iff)
  then have "basename q = basename xs @ l" using assms(2) by (simp add: basename_append)
  then show ?thesis by (auto simp add: endswith_iff)
qed


text \<open>A simple pattern has no trailing slash and no double star, and where it matches a
  path it matches the base name of the path.\<close>

lemma simple_no_slash: "simple pat \<Longrightarrow> \<not> endswith pat ''/''"
proof
  assume s: "simple pat" and e: "endswith pat ''/''"
  from e have ne: "pat \<noteq> []" and l: "last pat = CHR ''/''" by (simp_all add: endswith_sep)
  then have "CHR ''/'' \<in> set pat" using last_in_set by metis
  moreover have "tl pat \<noteq> [] \<Longrightarrow> CHR ''/'' \<in> set (tl pat)"
    using l ne by (metis last_in_set last_tl)
  ultimately show False using s ne l
    by (cases pat) (auto simp add: simple_def word_def split: if_splits)
qed

lemma simple_no_dstar: 
  assumes "simple pat"
  shows "\<not> contains ''**'' pat"
proof
  assume c: "contains ''**'' pat"
  from assms show False
    unfolding simple_def
  proof
    assume "word pat"
    then show False using contains_hd [OF c] by (auto simp add: word_def plain_def)
  next
    assume s: "pat \<noteq> [] \<and> hd pat = CHR ''*'' \<and> word (tl pat)"
    then obtain l where pat: "pat = CHR ''*'' # l" and l: "word l" by (cases pat) auto
    have "startswith pat ''**'' \<or> contains ''**'' l" using c by (simp add: pat)
    then show False
    proof
      assume "startswith pat ''**''"
      then have "l \<noteq> [] \<and> hd l = CHR ''*''"
        by (cases l) (auto simp add: pat startswith_def)
      then show False using l by (cases l) (auto simp add: word_def plain_def)
    next
      assume "contains ''**'' l"
      then show False using contains_hd [of "''**''" l] l by (auto simp add: word_def plain_def)
    qed
  qed
qed

lemma simple_basename:
  assumes "simple pat" "fnmatch q pat"
  shows "fnmatch (basename q) pat"
  using assms(1) unfolding simple_def
proof
  assume w: "word pat"
  then have "q = pat" using assms(2) by (simp add: word_def fnmatch_plain)
  then show ?thesis using w by (simp add: word_def fnmatch_plain basename_id)
next
  assume s: "pat \<noteq> [] \<and> hd pat = CHR ''*'' \<and> word (tl pat)"
  then obtain l where pat: "pat = CHR ''*'' # l" and l: "word l" by (cases pat) auto
  have "endswith q l" using assms(2) l by (simp add: pat word_def fnmatch_star_plain)
  then have "endswith (basename q) l" using l by (simp add: endswith_basename word_def)
  then show ?thesis using l by (simp add: pat word_def fnmatch_star_plain)
qed

section \<open>Facts about \<^verbatim>\<open>should_ignore\<close>\<close>

lemma loop_step_plain:
  assumes "\<not> endswith pat ''/''" "\<not> contains ''**'' pat"
  shows "should_ignore_loop q n isdir (pat # pats)
           = (fnmatch q pat \<or> fnmatch n pat \<or> should_ignore_loop q n isdir pats)"
  using assms by (simp add: Let_def rstrip_chars_id)

lemma loop_fnmatch:
  assumes "pattern \<in> set pats" "isdir \<or> \<not> endswith pattern ''/''"
    "fnmatch q (rstrip_chars ''/'' pattern) \<or> fnmatch n (rstrip_chars ''/'' pattern)"
  shows "should_ignore_loop q n isdir pats"
  using assms(1)
proof (induction pats)
  case Nil
  then show ?case by simp
next
  case (Cons a pats)
  show ?case
  proof (cases "a = pattern")
    case True
    then show ?thesis using assms(2,3) by (auto simp add: Let_def)
  next
    case False
    then have "should_ignore_loop q n isdir pats" using Cons by simp
    then show ?thesis by (auto simp add: Let_def)
  qed
qed


lemma default_patterns_simple: "\<forall>pat \<in> set (default_patterns GitignoreParser). simple pat"
  by (simp add: GitignoreParser_def simple_def word_def plain_def)

lemma loop_simple:
  assumes "\<forall>pat \<in> set pats. simple pat"
  shows "should_ignore_loop q (basename q) isdir pats = (\<exists>pat \<in> set pats. fnmatch (basename q) pat)"
  using assms
proof (induction pats)
  case Nil
  then show ?case by simp
next
  case (Cons a pats)
  then show ?case
    using simple_basename [of a q]
    by (auto simp add: loop_step_plain simple_no_slash simple_no_dstar
        simp del: should_ignore_loop.simps)
qed

lemma should_ignore_simple:
  "\<forall>pat \<in> set (patterns g). simple pat \<Longrightarrow>
     should_ignore g p isdir = (\<exists>pat \<in> set (patterns g). fnmatch (basename (normpath p)) pat)"
  by (simp add: should_ignore_def Let_def loop_simple)

section \<open>Facts about loading\<close>

lemma foldl_load_line:
  "foldl load_line self ls =
     self\<lparr>patterns := patterns self @
        map (strip_chars ''/'') (filter (\<lambda>l. l \<noteq> [] \<and> \<not> startswith l ''#'') (map strip ls))\<rparr>"
  by (induction ls arbitrary: self) (simp_all add: load_line_def Let_def)

lemma loaded_patterns:
  assumes "load_gitignore GitignoreParser nd = Inr g"
  shows "\<exists>more. patterns g = default_patterns GitignoreParser @ more"
  using assms
  by (auto simp add: load_gitignore_def foldl_load_line Let_def
      split: option.splits sum.splits)

lemma loaded_line:
  assumes "load_gitignore GitignoreParser nd = Inr g"
    and "lookup nd ''.gitignore'' = Some (File (Some ls))"
    and "l \<in> set ls" "strip l \<noteq> []" "\<not> startswith (strip l) ''#''"
  shows "strip_chars ''/'' (strip l) \<in> set (patterns g)"
  using assms
  by (auto simp add: load_gitignore_def foldl_load_line Let_def)

section \<open>Facts about the walk\<close>

declare tree.simps [simp del]

lemma listable_Dir [simp]: "listable (Some (Dir r es)) = r"
  by (simp add: listable_def)

lemma entry_line_listable:
  "listable par \<Longrightarrow> \<exists>ln. entry_line par p level prefix = Inr ln"
  by (auto simp add: entry_line_def listable_def Let_def split: sum.splits)

text \<open>The equation of a call below the root.\<close>

lemma tree_Suc:
  "tree par nd directory (Suc l) prefix (Some g) =
     (if should_ignore g (str (Path directory)) (is_dir nd) then ([], None)
      else
        (case entry_line par (Path directory) (Suc l) prefix of
           Inl e \<Rightarrow> ([], Some e)
         | Inr text \<Rightarrow>
             (case nd of
                Some (Dir True entries) \<Rightarrow>
                  (case tree_items (Dir True entries) (Path directory) (Suc l) prefix g
                          (length (contents g (Path directory) entries)) 0
                          (contents g (Path directory) entries) of
                     (out, r) \<Rightarrow>
                       (\<lparr>subject = str (Path directory), subject_is_dir = True, line = text\<rparr> # out, r))
              | _ \<Rightarrow> ([\<lparr>subject = str (Path directory), subject_is_dir = is_dir nd, line = text\<rparr>], None))))"
  by (subst tree.simps) (simp add: Let_def split: sum.split option.split node.split bool.split)

lemma tree_no_error_aux:
  "0 < level \<longrightarrow> listable par \<longrightarrow> gp \<noteq> None \<longrightarrow>
     snd (tree par nd directory level prefix gp) = None"
  "listable (Some d) \<longrightarrow> snd (tree_items d p lv prefix' g' n i items) = None"
proof (induction par nd directory level prefix gp and d p lv prefix' g' n i items
    rule: tree_tree_items.induct)
  case (1 par nd directory level prefix gp)
  show ?case
  proof (intro impI)
    assume lv: "0 < level" and lp: "listable par" and gp: "gp \<noteq> None"
    obtain g where g: "gp = Some g" using gp by auto
    obtain l where l: "level = Suc l" using lv by (cases level) auto
    obtain ln where ln: "entry_line par (Path directory) level prefix = Inr ln"
      using entry_line_listable [OF lp] by blast
    show "snd (tree par nd directory level prefix gp) = None"
    proof (cases "should_ignore g (str (Path directory)) (is_dir nd)")
      case True
      then show ?thesis by (simp add: g l tree_Suc)
    next
      case False
      show ?thesis
      proof (cases "\<exists>entries. nd = Some (Dir True entries)")
        case True
        then obtain entries where nd: "nd = Some (Dir True entries)" by blast
        have "snd (tree_items (Dir True entries) (Path directory) level prefix g
                (length (contents g (Path directory) entries)) 0
                (contents g (Path directory) entries)) = None"
          using 1 [of "Path directory" "Some g" g ln _ "Dir True entries" True entries] False ln lv
          by (simp add: g nd)
        then show ?thesis
          using False ln by (auto simp add: g l tree_Suc nd split: prod.split)
      next
        case no: False
        then show ?thesis
          using False ln
          by (auto simp add: g l tree_Suc split: option.split node.split bool.split)
      qed
    qed
  qed
next
  case (2 d p level prefix g n i)
  then show ?case by simp
next
  case (3 d p level prefix g n i item rest)
  show ?case
  proof
    assume ld: "listable (Some d)"
    let ?np = "(if level = 0 then ''    ''
            else let is_last_item = i = n - 1
                 in prefix @ (if is_last_item then ''    '' else pipe))"
    obtain out r where t: "tree (Some d) (Some (snd item)) (str (child p (fst item))) (level + 1) ?np (Some g) = (out, r)"
      by (cases "tree (Some d) (Some (snd item)) (str (child p (fst item))) (level + 1) ?np (Some g)")
    have r: "r = None" using 3(1) [OF refl] ld t by simp
    have "snd (tree_items d p level prefix g n (i + 1) rest) = None"
      using 3(2) [OF refl t [symmetric] r] ld by simp
    then show "snd (tree_items d p level prefix g n i (item # rest)) = None"
      using t r by (auto simp add: Let_def split: prod.split)
  qed
qed


lemma tree_events_kept_aux:
  "(if level = 0 then load_gitignore GitignoreParser nd = Inr g else gp = Some g) \<longrightarrow>
     (\<forall>e \<in> set (fst (tree par nd directory level prefix gp)).
        \<not> should_ignore g (subject e) (subject_is_dir e))"
  "\<forall>e \<in> set (fst (tree_items d p lv prefix' g' n i items)).
        \<not> should_ignore g' (subject e) (subject_is_dir e)"
proof (induction par nd directory level prefix gp and d p lv prefix' g' n i items
    arbitrary: g rule: tree_tree_items.induct)
  case (1 par nd directory level prefix gp)
  show ?case
  proof (intro impI)
    assume use: "if level = 0 then load_gitignore GitignoreParser nd = Inr g else gp = Some g"
    then have sel: "(if level = 0
            then case load_gitignore GitignoreParser nd of Inl x \<Rightarrow> Inl x
                 | Inr g \<Rightarrow> Inr (Some g)
            else Inr gp) = Inr (Some g)"
      by (simp split: if_splits)
    show "\<forall>e \<in> set (fst (tree par nd directory level prefix gp)).
        \<not> should_ignore g (subject e) (subject_is_dir e)"
    proof (cases "should_ignore g (str (Path directory)) (is_dir nd)")
      case True
      then show ?thesis using sel by (subst tree.simps) (simp add: Let_def)
    next
      case False
      show ?thesis
      proof (cases "entry_line par (Path directory) level prefix")
        case (Inl e)
        then show ?thesis using sel False by (subst tree.simps) (simp add: Let_def)
      next
        case (Inr ln)
        show ?thesis
        proof (cases "\<exists>entries. nd = Some (Dir True entries)")
          case True
          then obtain entries where nd: "nd = Some (Dir True entries)" by blast
          have "\<forall>e \<in> set (fst (tree_items (Dir True entries) (Path directory) level prefix g
                  (length (contents g (Path directory) entries)) 0
                  (contents g (Path directory) entries))).
                  \<not> should_ignore g (subject e) (subject_is_dir e)"
            using 1 [of "Path directory" "Some g" g ln _ "Dir True entries" True entries] False Inr sel
            by (simp add: nd)
          then show ?thesis
            using False Inr sel
            by (subst tree.simps) (auto simp add: Let_def nd split: prod.split)
        next
          case no: False
          then show ?thesis
            using False Inr sel
            by (subst tree.simps)
              (auto simp add: Let_def split: option.split node.split bool.split)
        qed
      qed
    qed
  qed
next
  case (2 d p level prefix g n i)
  then show ?case by simp
next
  case (3 d p level prefix g n i item rest)
  let ?np = "(if level = 0 then ''    ''
          else let is_last_item = i = n - 1
               in prefix @ (if is_last_item then ''    '' else pipe))"
  obtain out r where t: "tree (Some d) (Some (snd item)) (str (child p (fst item))) (level + 1) ?np (Some g) = (out, r)"
    by (cases "tree (Some d) (Some (snd item)) (str (child p (fst item))) (level + 1) ?np (Some g)")
  have a: "\<forall>e \<in> set out. \<not> should_ignore g (subject e) (subject_is_dir e)"
    using 3(1) [OF refl, of g] t by simp
  show ?case
  proof (cases r)
    case None
    have "\<forall>e \<in> set (fst (tree_items d p level prefix g n (i + 1) rest)).
            \<not> should_ignore g (subject e) (subject_is_dir e)"
      using 3(2) [OF refl t [symmetric] None] by simp
    then show ?thesis using t None a by (auto simp add: Let_def split: prod.split)
  next
    case (Some e)
    then show ?thesis using t a by (auto simp add: Let_def split: prod.split)
  qed
qed

lemma tree_level0:
  "load_gitignore GitignoreParser nd = Inr g \<Longrightarrow>
   tree par nd directory 0 prefix gp =
     (if should_ignore g (str (Path directory)) (is_dir nd) then ([], None)
      else
        (case nd of
           Some (Dir True entries) \<Rightarrow>
             (case tree_items (Dir True entries) (Path directory) 0 prefix g
                     (length (contents g (Path directory) entries)) 0
                     (contents g (Path directory) entries) of
                (out, r) \<Rightarrow>
                  (\<lparr>subject = str (Path directory), subject_is_dir = True,
                    line = name (Path directory)\<rparr> # out, r))
         | _ \<Rightarrow> ([\<lparr>subject = str (Path directory), subject_is_dir = is_dir nd,
                   line = name (Path directory)\<rparr>], None)))"
  by (subst tree.simps)
    (simp add: Let_def entry_line_def split: sum.split option.split node.split bool.split)

lemma tree_load_error:
  "load_gitignore GitignoreParser nd = Inl e \<Longrightarrow> tree par nd directory 0 prefix gp = ([], Some e)"
  by (subst tree.simps) (simp add: Let_def)

lemma tree_ignored:
  assumes "if level = 0 then load_gitignore GitignoreParser nd = Inr g else gp = Some g"
    and "should_ignore g (str (Path directory)) (is_dir nd)"
  shows "tree par nd directory level prefix gp = ([], None)"
proof (cases level)
  case 0
  then show ?thesis using assms by (simp add: tree_level0)
next
  case (Suc l)
  then show ?thesis using assms by (simp add: tree_Suc)
qed

lemma contents_kept:
  "item \<in> set (contents g p entries) \<Longrightarrow>
     \<not> should_ignore g (str (child p (fst item))) (is_dir (Some (snd item)))"
  by (simp add: contents_def kept_def)

lemma node_modules_ignored:
  assumes "load_gitignore GitignoreParser nd = Inr g" "basename (normpath q) = ''node_modules''"
  shows "should_ignore g q isdir"
proof -
  have "''node_modules'' \<in> set (patterns g)"
    using loaded_patterns [OF assms(1)] by (auto simp add: GitignoreParser_def)
  moreover have "\<not> endswith ''node_modules'' ''/''" by (simp add: endswith_def)
  moreover have "fnmatch ''node_modules'' ''node_modules''"
    by (simp add: fnmatch_plain plain_def)
  ultimately show ?thesis
    using loop_fnmatch [of "''node_modules''" "patterns g" isdir "normpath q" "basename (normpath q)"]
    by (simp add: should_ignore_def Let_def rstrip_chars_id assms(2))
qed

lemma tree_items_no_error: "snd (tree_items (Dir True es) p lv prefix g n i items) = None"
  using tree_no_error_aux(2) [of "Dir True es"] by simp

lemma tree_raises_iff:
  "snd (tree par nd directory 0 prefix gp) =
     (case load_gitignore GitignoreParser nd of Inl e \<Rightarrow> Some e | Inr g \<Rightarrow> None)"
proof (cases "load_gitignore GitignoreParser nd")
  case (Inl e)
  then show ?thesis by (simp add: tree_load_error)
next
  case (Inr g)
  have "snd (tree par nd directory 0 prefix gp) = None"
  proof (cases "\<exists>entries. nd = Some (Dir True entries)")
    case True
    then obtain entries where nd: "nd = Some (Dir True entries)" by blast
    have l: "load_gitignore GitignoreParser (Some (Dir True entries)) = Inr g"
      using Inr nd by simp
    show ?thesis
      using tree_items_no_error [of entries "Path directory" 0 prefix g
          "length (contents g (Path directory) entries)" 0 "contents g (Path directory) entries"]
      by (auto simp add: tree_level0 [OF l] nd split: prod.split)
  next
    case False
    then show ?thesis
      by (auto simp add: tree_level0 [OF Inr] split: option.split node.split bool.split)
  qed
  then show ?thesis by (simp add: Inr)
qed


section \<open>Facts about splitting and paths\<close>
















section \<open>Facts about the entries of a directory\<close>







lemma fnmatch_star_log: "fnmatch s ''*.log'' \<longleftrightarrow> endswith s ''.log''"
  using fnmatch_star_plain [of "''.log''" s] by (simp add: plain_def)

section \<open>Facts about the order of a listing\<close>














lemma alike_names:
  "list_all2 alike es bs \<Longrightarrow> map fst es = map fst bs"
  by (induction rule: list_all2_induct) (simp_all add: alike_def)









section \<open>C1: the connector of a line\<close>

lemma entry_line_below_root:
  "entry_line (Some (Dir True (e # es))) p (Suc l) prefix = Inr (prefix @ tee @ name p)"
  by (simp add: entry_line_def)

text \<open>
  C1 fails on the code. A directory \<^verbatim>\<open>proj\<close> holds the single file
  \<^verbatim>\<open>a\<close>, which is the last of its parent's surviving entries; its line carries
  the connector of an entry that is not the last. The test of line 93 asks whether the
  parent directory is empty, which it never is for an entry that is being printed
  (\<open>entry_line_below_root\<close>), so the end connector is never printed. The loop over the
  entries knows the position of each entry and uses it for the prefix only.
\<close>

theorem tree_connector_single_child:
  "stdout (main (\<lambda>p. if p = ''proj'' then Some (Dir True [(''a'', File (Some []))]) else None)
            [''simpletree'', ''proj''])
     = [''proj'', ''    '' @ tee @ ''a'']"
  by code_simp

section \<open>C2: directory-only patterns\<close>

lemma rstrip_by_last: "rstrip_by P s \<noteq> [] \<Longrightarrow> \<not> P (last (rstrip_by P s))"
proof -
  assume ne: "rstrip_by P s \<noteq> []"
  then have "dropWhile P (rev s) \<noteq> []" by (simp add: rstrip_by_def)
  then have "\<not> P (hd (dropWhile P (rev s)))" by (rule hd_dropWhile)
  then show ?thesis using ne by (simp add: rstrip_by_def last_rev)
qed

lemma strip_chars_no_slash: "\<not> endswith (strip_chars ''/'' s) ''/''"
  using rstrip_by_last [of "\<lambda>c. c \<in> set ''/''" "lstrip_by (\<lambda>c. c \<in> set ''/'') s"]
  by (auto simp add: endswith_sep strip_chars_def strip_by_def)

lemma loaded_no_trailing_slash:
  assumes "load_gitignore GitignoreParser nd = Inr g"
  shows "\<forall>pat \<in> set (patterns g). \<not> endswith pat ''/''"
proof -
  have d: "\<forall>pat \<in> set (default_patterns GitignoreParser). \<not> endswith pat ''/''"
    using default_patterns_simple simple_no_slash by blast
  show ?thesis
    using assms d strip_chars_no_slash
    by (auto simp add: load_gitignore_def foldl_load_line Let_def
        split: option.splits sum.splits)
qed

lemma loop_isdir_irrelevant:
  "\<forall>pat \<in> set pats. \<not> endswith pat ''/'' \<Longrightarrow>
     should_ignore_loop q n True pats = should_ignore_loop q n False pats"
  by (induction pats) (simp_all add: Let_def)

lemma loaded_isdir_irrelevant:
  "load_gitignore GitignoreParser nd = Inr g \<Longrightarrow> should_ignore g p True = should_ignore g p False"
  using loaded_no_trailing_slash [of nd g]
  by (simp add: should_ignore_def Let_def loop_isdir_irrelevant)

text \<open>
  C2 fails on the code. The ignore file holds the line \<^verbatim>\<open>out/\<close>. Loading
  removes the slash, the stored pattern is \<^verbatim>\<open>out\<close>, and the test for a
  trailing slash in \<^verbatim>\<open>should_ignore\<close> never holds: a file named
  \<^verbatim>\<open>out\<close> is ignored, as a directory of that name is. No loaded pattern ends
  with a slash, so the answer of \<^verbatim>\<open>should_ignore\<close> never depends on whether the
  entry is a directory (\<open>loaded_isdir_irrelevant\<close>).
\<close>

theorem dir_only_pattern_matches_file:
  "load_gitignore GitignoreParser
       (Some (Dir True [(''.gitignore'', File (Some [''out/'' @ [CHR 0x0A]])),
                        (''out'', File (Some []))]))
     = Inr (GitignoreParser\<lparr>patterns := default_patterns GitignoreParser @ [''out'']\<rparr>)
   \<and> should_ignore (GitignoreParser\<lparr>patterns := default_patterns GitignoreParser @ [''out'']\<rparr>)
         ''proj/out'' False
   \<and> should_ignore (GitignoreParser\<lparr>patterns := default_patterns GitignoreParser @ [''out'']\<rparr>)
         ''proj/out'' True"
  by code_simp

section \<open>C3: the loaded patterns\<close>



section \<open>C4: the double star\<close>




section \<open>C5: ignored paths are not printed\<close>

text \<open>
  C5. Let \<open>g\<close> be the parser a call of \<^verbatim>\<open>tree\<close> uses: the freshly loaded one
  at level 0, the one passed in below. If \<^verbatim>\<open>should_ignore\<close> holds of the path of
  the call, the root included, the call prints nothing and returns; no line of the
  output of the call, at any depth, is printed for a path that
  \<^verbatim>\<open>should_ignore\<close> holds of; the entries the loop descends into are entries that
  are not ignored; and a loaded parser ignores every path with the base name
  \<^verbatim>\<open>node_modules\<close>, whatever the ignore file holds.
\<close>

theorem ignored_paths_not_printed:
  assumes "if level = 0 then load_gitignore GitignoreParser nd = Inr g else gp = Some g"
  shows "(should_ignore g (str (Path directory)) (is_dir nd) \<longrightarrow>
            tree par nd directory level prefix gp = ([], None))
       \<and> (\<forall>e \<in> set (fst (tree par nd directory level prefix gp)).
            \<not> should_ignore g (subject e) (subject_is_dir e))
       \<and> (\<forall>item \<in> set (contents g (Path directory) entries).
            \<not> should_ignore g (str (child (Path directory) (fst item))) (is_dir (Some (snd item))))
       \<and> (level = 0 \<and> basename (normpath q) = ''node_modules'' \<longrightarrow> should_ignore g q isdir)"
proof (intro conjI)
  show "should_ignore g (str (Path directory)) (is_dir nd) \<longrightarrow>
          tree par nd directory level prefix gp = ([], None)"
    using tree_ignored [OF assms] by blast
  show "\<forall>e \<in> set (fst (tree par nd directory level prefix gp)).
          \<not> should_ignore g (subject e) (subject_is_dir e)"
    using tree_events_kept_aux(1) [of level nd g gp par directory prefix] assms by blast
  show "\<forall>item \<in> set (contents g (Path directory) entries).
          \<not> should_ignore g (str (child (Path directory) (fst item))) (is_dir (Some (snd item)))"
    using contents_kept by blast
  show "level = 0 \<and> basename (normpath q) = ''node_modules'' \<longrightarrow> should_ignore g q isdir"
    using assms node_modules_ignored by auto
qed

theorem ignored_paths_not_printed_witness:
  "load_gitignore GitignoreParser
       (Some (Dir True [(''node_modules'', Dir True [(''x.js'', File (Some []))]),
                        (''a.txt'', File (Some []))]))
     = Inr (GitignoreParser\<lparr>patterns := default_patterns GitignoreParser\<rparr>)
   \<and> should_ignore (GitignoreParser\<lparr>patterns := default_patterns GitignoreParser\<rparr>)
        (str (Path ''proj/node_modules'')) True
   \<and> tree (Some (Dir True [(''node_modules'', Dir True [(''x.js'', File (Some []))]),
                            (''a.txt'', File (Some []))]))
          (Some (Dir True [(''x.js'', File (Some []))])) ''proj/node_modules'' 1 ''    ''
          (Some (GitignoreParser\<lparr>patterns := default_patterns GitignoreParser\<rparr>))
       = ([], None)
   \<and> fst (tree None
          (Some (Dir True [(''node_modules'', Dir True [(''x.js'', File (Some []))]),
                           (''a.txt'', File (Some []))])) ''proj'' 0 [] None)
       = [\<lparr>subject = ''proj'', subject_is_dir = True, line = ''proj''\<rparr>,
          \<lparr>subject = ''proj/a.txt'', subject_is_dir = False, line = ''    '' @ tee @ ''a.txt''\<rparr>]
   \<and> \<not> should_ignore (GitignoreParser\<lparr>patterns := default_patterns GitignoreParser\<rparr>)
          ''proj'' True
   \<and> \<not> should_ignore (GitignoreParser\<lparr>patterns := default_patterns GitignoreParser\<rparr>)
          ''proj/a.txt'' False
   \<and> contents (GitignoreParser\<lparr>patterns := default_patterns GitignoreParser\<rparr>) (Path ''proj'')
         [(''node_modules'', Dir True [(''x.js'', File (Some []))]), (''a.txt'', File (Some []))]
       = [(''a.txt'', File (Some []))]
   \<and> basename (normpath ''proj/node_modules'') = ''node_modules''"
proof -
  let ?g = "GitignoreParser\<lparr>patterns := default_patterns GitignoreParser\<rparr>"
  let ?nm = "Dir True [(''x.js'', File (Some []))]"
  let ?es = "[(''node_modules'', ?nm), (''a.txt'', File (Some []))]"
  let ?nd = "Some (Dir True ?es)"
  have l: "load_gitignore GitignoreParser ?nd = Inr ?g" by code_simp
  have i: "should_ignore ?g (str (Path ''proj/node_modules'')) True" by code_simp
  have r: "fst (tree None ?nd ''proj'' 0 [] None)
       = [\<lparr>subject = ''proj'', subject_is_dir = True, line = ''proj''\<rparr>,
          \<lparr>subject = ''proj/a.txt'', subject_is_dir = False, line = ''    '' @ tee @ ''a.txt''\<rparr>]"
    by code_simp
  have c: "contents ?g (Path ''proj'') ?es = [(''a.txt'', File (Some []))]" by code_simp
  have b: "basename (normpath ''proj/node_modules'') = ''node_modules''" by code_simp
  have A: "if (1::nat) = 0 then load_gitignore GitignoreParser (Some ?nm) = Inr ?g
           else Some ?g = Some ?g" by simp
  have B: "if (0::nat) = 0 then load_gitignore GitignoreParser ?nd = Inr ?g
           else None = Some ?g" using l by simp
  note t1 = ignored_paths_not_printed [OF A, of "''proj/node_modules''" ?nd "''    ''"]
  note t2 = ignored_paths_not_printed [OF B, of "''proj''" None "[]" ?es "''proj/node_modules''" True]
  have "tree ?nd (Some ?nm) ''proj/node_modules'' 1 ''    '' (Some ?g) = ([], None)"
    using t1 i by simp
  moreover have "\<not> should_ignore ?g ''proj'' True \<and> \<not> should_ignore ?g ''proj/a.txt'' False"
    using t2 r by simp
  ultimately show ?thesis using l i r c b by simp
qed

section \<open>C6: whole-string matching\<close>

text \<open>
  C6. A pattern that is not skipped and matches the normalised path or its base name as
  a whole makes \<^verbatim>\<open>should_ignore\<close> true. The pattern \<^verbatim>\<open>*.log\<close> matches
  exactly the strings that end with \<^verbatim>\<open>.log\<close>, separators included. With an
  ignore file that holds the line \<^verbatim>\<open>*.log\<close>, a path with the base name
  \<^verbatim>\<open>x.log\<close> is ignored; with the default patterns and \<^verbatim>\<open>*.log\<close>, a path
  with the base name \<^verbatim>\<open>x.logger\<close> is not; and the run on a directory holding
  both files prints the second and not the first.
\<close>

theorem glob_whole_string:
  "(pattern \<in> set (patterns g) \<and> (isdir \<or> \<not> endswith pattern ''/'')
      \<and> (fnmatch (normpath p) (rstrip_chars ''/'' pattern)
           \<or> fnmatch (basename (normpath p)) (rstrip_chars ''/'' pattern))
      \<longrightarrow> should_ignore g p isdir)
   \<and> (fnmatch s ''*.log'' \<longleftrightarrow> endswith s ''.log'')
   \<and> fnmatch (xs @ ''/'' @ ys @ ''.log'') ''*.log''
   \<and> (load_gitignore GitignoreParser nd = Inr g'
        \<and> lookup nd ''.gitignore'' = Some (File (Some ls))
        \<and> l \<in> set ls \<and> strip l = ''*.log''
        \<and> basename (normpath q) = ''x.log''
      \<longrightarrow> should_ignore g' q isdir)
   \<and> (patterns g'' = default_patterns GitignoreParser @ [''*.log'']
        \<and> basename (normpath q') = ''x.logger''
      \<longrightarrow> \<not> should_ignore g'' q' isdir)
   \<and> stdout (main (\<lambda>p. if p = ''proj''
                          then Some (Dir True [(''x.log'', File (Some [])),
                                               (''x.logger'', File (Some [])),
                                               (''.gitignore'', File (Some [''*.log'' @ [CHR 0x0A]]))])
                          else None)
               [''simpletree'', ''proj''])
       = [''proj'', ''    '' @ tee @ ''.gitignore'', ''    '' @ tee @ ''x.logger'']"
proof (intro conjI impI)
  assume a: "pattern \<in> set (patterns g) \<and> (isdir \<or> \<not> endswith pattern ''/'')
      \<and> (fnmatch (normpath p) (rstrip_chars ''/'' pattern)
           \<or> fnmatch (basename (normpath p)) (rstrip_chars ''/'' pattern))"
  then show "should_ignore g p isdir"
    using loop_fnmatch [of pattern "patterns g" isdir "normpath p" "basename (normpath p)"]
    by (simp add: should_ignore_def Let_def)
next
  show "fnmatch s ''*.log'' \<longleftrightarrow> endswith s ''.log''" by (rule fnmatch_star_log)
next
  show "fnmatch (xs @ ''/'' @ ys @ ''.log'') ''*.log''"
    unfolding fnmatch_star_log endswith_iff by (metis append.assoc)
next
  assume a: "load_gitignore GitignoreParser nd = Inr g'
        \<and> lookup nd ''.gitignore'' = Some (File (Some ls))
        \<and> l \<in> set ls \<and> strip l = ''*.log''
        \<and> basename (normpath q) = ''x.log''"
  have "strip_chars ''/'' (strip l) \<in> set (patterns g')"
    using a by (intro loaded_line [of nd g' ls l]) (simp_all add: startswith_def)
  moreover have "strip_chars ''/'' ''*.log'' = ''*.log''" by code_simp
  ultimately have "''*.log'' \<in> set (patterns g')" using a by simp
  moreover have "\<not> endswith ''*.log'' ''/''" by (simp add: endswith_def)
  moreover have "fnmatch ''x.log'' ''*.log''" by (simp add: fnmatch_star_log endswith_def)
  ultimately show "should_ignore g' q isdir"
    using loop_fnmatch [of "''*.log''" "patterns g'" isdir "normpath q" "basename (normpath q)"] a
    by (simp add: should_ignore_def Let_def rstrip_chars_id)
next
  assume a: "patterns g'' = default_patterns GitignoreParser @ [''*.log'']
        \<and> basename (normpath q') = ''x.logger''"
  have "\<forall>pat \<in> set (patterns g''). simple pat"
    using default_patterns_simple a by (auto simp add: simple_def word_def plain_def)
  then have "should_ignore g'' q' isdir = (\<exists>pat \<in> set (patterns g''). fnmatch ''x.logger'' pat)"
    using a by (simp add: should_ignore_simple)
  also have "\<dots> = False"
    using a by (simp add: GitignoreParser_def fnmatch_def)
  finally show "\<not> should_ignore g'' q' isdir" by simp
next
  show "stdout (main (\<lambda>p. if p = ''proj''
                          then Some (Dir True [(''x.log'', File (Some [])),
                                               (''x.logger'', File (Some [])),
                                               (''.gitignore'', File (Some [''*.log'' @ [CHR 0x0A]]))])
                          else None)
               [''simpletree'', ''proj''])
       = [''proj'', ''    '' @ tee @ ''.gitignore'', ''    '' @ tee @ ''x.logger'']"
    by code_simp
qed

theorem glob_whole_string_witness:
  "''*.log'' \<in> set (patterns (GitignoreParser\<lparr>patterns := default_patterns GitignoreParser @ [''*.log'']\<rparr>))
   \<and> \<not> endswith ''*.log'' ''/''
   \<and> fnmatch (normpath ''src/deep/x.log'') (rstrip_chars ''/'' ''*.log'')
   \<and> should_ignore (GitignoreParser\<lparr>patterns := default_patterns GitignoreParser @ [''*.log'']\<rparr>)
        ''src/deep/x.log'' False
   \<and> load_gitignore GitignoreParser
        (Some (Dir True [(''.gitignore'', File (Some [''*.log'' @ [CHR 0x0A]]))]))
       = Inr (GitignoreParser\<lparr>patterns := default_patterns GitignoreParser @ [''*.log'']\<rparr>)
   \<and> lookup (Some (Dir True [(''.gitignore'', File (Some [''*.log'' @ [CHR 0x0A]]))])) ''.gitignore''
       = Some (File (Some [''*.log'' @ [CHR 0x0A]]))
   \<and> strip (''*.log'' @ [CHR 0x0A]) = ''*.log''
   \<and> basename (normpath ''proj/x.log'') = ''x.log''
   \<and> should_ignore (GitignoreParser\<lparr>patterns := default_patterns GitignoreParser @ [''*.log'']\<rparr>)
        ''proj/x.log'' True
   \<and> basename (normpath ''proj/x.logger'') = ''x.logger''
   \<and> \<not> should_ignore (GitignoreParser\<lparr>patterns := default_patterns GitignoreParser @ [''*.log'']\<rparr>)
        ''proj/x.logger'' False"
proof -
  let ?g = "GitignoreParser\<lparr>patterns := default_patterns GitignoreParser @ [''*.log'']\<rparr>"
  let ?nd = "Some (Dir True [(''.gitignore'', File (Some [''*.log'' @ [CHR 0x0A]]))])"
  have 1: "''*.log'' \<in> set (patterns ?g)" by simp
  have 2: "\<not> endswith ''*.log'' ''/''" by code_simp
  have 3: "fnmatch (normpath ''src/deep/x.log'') (rstrip_chars ''/'' ''*.log'')" by code_simp
  have 4: "load_gitignore GitignoreParser ?nd = Inr ?g" by code_simp
  have 5: "lookup ?nd ''.gitignore'' = Some (File (Some [''*.log'' @ [CHR 0x0A]]))" by simp
  have 6: "strip (''*.log'' @ [CHR 0x0A]) = ''*.log''" by code_simp
  have 7: "basename (normpath ''proj/x.log'') = ''x.log''" by code_simp
  have 8: "basename (normpath ''proj/x.logger'') = ''x.logger''" by code_simp
  have 9: "patterns ?g = default_patterns GitignoreParser @ [''*.log'']" by simp
  have 10: "''*.log'' @ [CHR 0x0A] \<in> set [''*.log'' @ [CHR 0x0A]]" by simp
  note t = glob_whole_string [where pattern = "''*.log''" and g = ?g and isdir = False
      and p = "''src/deep/x.log''" and g'' = ?g and q' = "''proj/x.logger''"
      and nd = ?nd and g' = ?g and ls = "[''*.log'' @ [CHR 0x0A]]" 
      and l = "''*.log'' @ [CHR 0x0A]" and q = "''proj/x.log''"]
  have a: "should_ignore ?g ''src/deep/x.log'' False" using t 1 2 3 by blast
  have b: "should_ignore ?g ''proj/x.log'' isdir" for isdir
    using glob_whole_string [where nd = ?nd and g' = ?g and ls = "[''*.log'' @ [CHR 0x0A]]" 
      and l = "''*.log'' @ [CHR 0x0A]" and q = "''proj/x.log''" and isdir = isdir] 4 5 6 7 10
    by blast
  have c: "\<not> should_ignore ?g ''proj/x.logger'' False" using t 8 9 by blast
  show ?thesis using 1 2 3 4 5 6 7 8 a b c by blast
qed

section \<open>C7: the order of the entries\<close>



section \<open>C8: directories that cannot be listed\<close>

text \<open>
  C8. A directory that cannot be listed and is not ignored: the call prints the line of
  the directory and nothing else, and returns without an exception. At level 0 the
  parser is the loaded one; below, the parent directory is one that was listed.
\<close>

theorem unreadable_directory:
  assumes "if level = 0 then load_gitignore GitignoreParser nd = Inr g
           else gp = Some g \<and> listable par"
    and "nd = Some (Dir False entries)"
    and "\<not> should_ignore g (str (Path directory)) True"
  shows "tree par nd directory level prefix gp =
           ([\<lparr>subject = str (Path directory), subject_is_dir = True,
              line = (if level = 0 then name (Path directory)
                      else prefix @ (if iterdir par = Inr [] then elbow else tee)
                             @ name (Path directory))\<rparr>], None)"
proof (cases level)
  case 0
  then show ?thesis using assms by (simp add: tree_level0)
next
  case (Suc l)
  then have gp: "gp = Some g" and lp: "listable par" using assms(1) by simp_all
  obtain es where es: "iterdir par = Inr es"
    using lp by (auto simp add: listable_def split: sum.splits)
  show ?thesis
    using assms(2,3) es
    by (simp add: Suc gp tree_Suc entry_line_def Let_def)
qed

theorem unreadable_directory_witness:
  "load_gitignore GitignoreParser (Some (Dir False [(''secret'', File None)]))
     = Inr (GitignoreParser\<lparr>patterns := default_patterns GitignoreParser\<rparr>)
   \<and> \<not> should_ignore (GitignoreParser\<lparr>patterns := default_patterns GitignoreParser\<rparr>)
          (str (Path ''locked'')) True
   \<and> tree None (Some (Dir False [(''secret'', File None)])) ''locked'' 0 [] None
       = ([\<lparr>subject = ''locked'', subject_is_dir = True, line = ''locked''\<rparr>], None)
   \<and> listable (Some (Dir True [(''locked'', Dir False [(''secret'', File None)])]))
   \<and> \<not> should_ignore (GitignoreParser\<lparr>patterns := default_patterns GitignoreParser\<rparr>)
          (str (Path ''proj/locked'')) True
   \<and> tree (Some (Dir True [(''locked'', Dir False [(''secret'', File None)])]))
          (Some (Dir False [(''secret'', File None)])) ''proj/locked'' 1 ''    ''
          (Some (GitignoreParser\<lparr>patterns := default_patterns GitignoreParser\<rparr>))
       = ([\<lparr>subject = ''proj/locked'', subject_is_dir = True,
            line = ''    '' @ tee @ ''locked''\<rparr>], None)"
proof -
  let ?g = "GitignoreParser\<lparr>patterns := default_patterns GitignoreParser\<rparr>"
  let ?d = "Dir False [(''secret'', File None)]"
  let ?par = "Some (Dir True [(''locked'', ?d)])"
  have l: "load_gitignore GitignoreParser (Some ?d) = Inr ?g" by code_simp
  have n0: "\<not> should_ignore ?g (str (Path ''locked'')) True" by code_simp
  have n1: "\<not> should_ignore ?g (str (Path ''proj/locked'')) True" by code_simp
  have lp: "listable ?par" by (simp add: listable_def)
  have s0: "str (Path ''locked'') = ''locked'' \<and> name (Path ''locked'') = ''locked''"
    by code_simp
  have s1: "str (Path ''proj/locked'') = ''proj/locked'' \<and> name (Path ''proj/locked'') = ''locked''"
    by code_simp
  have A: "if (0::nat) = 0 then load_gitignore GitignoreParser (Some ?d) = Inr ?g
           else None = Some ?g \<and> listable None" using l by simp
  have B: "if (1::nat) = 0 then load_gitignore GitignoreParser (Some ?d) = Inr ?g
           else Some ?g = Some ?g \<and> listable ?par" using lp by simp
  note t0 = unreadable_directory [OF A refl n0, of "[]"]
  note t1 = unreadable_directory [OF B refl n1, of "''    ''"]
  show ?thesis using t0 t1 l n0 n1 lp s0 s1 by simp
qed

section \<open>C9: the output is a function of the tree under the root\<close>

lemma listing_order_matters:
  "tree None (Some (Dir True [(''A'', File (Some [])), (''a'', File (Some []))])) ''proj'' 0 [] None
     \<noteq> tree None (Some (Dir True [(''a'', File (Some [])), (''A'', File (Some []))])) ''proj'' 0 [] None"
  by code_simp



section \<open>C10: a root path that does not exist\<close>

text \<open>
  C10, as amended. The root path does not exist, and no default pattern matches the base
  name of its normal form (\<^verbatim>\<open>os.path.basename(os.path.normpath(...))\<close>): the
  run prints one line, the last component of the path as \<^verbatim>\<open>Path.name\<close> gives
  it, and ends without an exception.
\<close>

theorem missing_root:
  assumes "fs d = None"
    and "\<not> (\<exists>pat \<in> set (default_patterns GitignoreParser).
              fnmatch (basename (normpath (str (Path d)))) pat)"
  shows "main fs (prog # d # rest) =
           ([\<lparr>subject = str (Path d), subject_is_dir = False, line = name (Path d)\<rparr>], None)
       \<and> stdout (main fs (prog # d # rest)) = [name (Path d)]"
proof -
  let ?g = "GitignoreParser\<lparr>patterns := default_patterns GitignoreParser\<rparr>"
  have l: "load_gitignore GitignoreParser None = Inr ?g"
    by (simp add: load_gitignore_def)
  have "\<forall>pat \<in> set (patterns ?g). simple pat"
    using default_patterns_simple by simp
  then have "\<not> should_ignore ?g (str (Path d)) False"
    using assms(2) by (simp add: should_ignore_simple)
  then have "main fs (prog # d # rest) =
           ([\<lparr>subject = str (Path d), subject_is_dir = False, line = name (Path d)\<rparr>], None)"
    using assms(1) by (simp add: main_def tree_level0 [OF l])
  then show ?thesis by (simp add: stdout_def)
qed

theorem missing_root_witness:
  "(\<lambda>p. None :: node option) ''nothere/at_all'' = None
   \<and> \<not> (\<exists>pat \<in> set (default_patterns GitignoreParser).
            fnmatch (basename (normpath (str (Path ''nothere/at_all'')))) pat)
   \<and> stdout (main (\<lambda>p. None) [''simpletree'', ''nothere/at_all'']) = [''at_all'']"
proof -
  have h: "\<not> (\<exists>pat \<in> set (default_patterns GitignoreParser).
            fnmatch (basename (normpath (str (Path ''nothere/at_all'')))) pat)"
    by code_simp
  have n: "name (Path ''nothere/at_all'') = ''at_all''" by code_simp
  have "stdout (main (\<lambda>p. None) [''simpletree'', ''nothere/at_all''])
          = [name (Path ''nothere/at_all'')]"
    using missing_root [of "\<lambda>p. None" "''nothere/at_all''" "''simpletree''" "[]", OF refl h]
    by blast
  then show ?thesis using h n by simp
qed

text \<open>
  C10 as it is stated fails: the root path \<^verbatim>\<open>node_modules/x/..\<close> does not
  exist, its last component \<^verbatim>\<open>..\<close> matches no default pattern, and the run
  prints nothing: the normal form of the path is \<^verbatim>\<open>node_modules\<close>.
\<close>

theorem missing_root_counterexample:
  "(\<lambda>p. None :: node option) ''node_modules/x/..'' = None
   \<and> name (Path ''node_modules/x/..'') = ''..''
   \<and> basename ''node_modules/x/..'' = ''..''
   \<and> \<not> list_ex (fnmatch ''..'') (default_patterns GitignoreParser)
   \<and> main (\<lambda>p. None) [''simpletree'', ''node_modules/x/..''] = ([], None)"
  by code_simp

end
